theory Spec2Isabelle
  imports Complex_Main "HOL-Library.Word"
begin

section \<open>Values of the Python program\<close>

subsection \<open>Floating-point numbers\<close>

text \<open>
  A Python float (the enhancement strength) and a numpy float32 (an audio sample) are
  IEEE values: a finite number, an infinity or NaN. A finite value is modelled by the
  real number it denotes. Every operation the filter performs on finite values is exact
  on floats: comparison, the conversion of an int16, division of such a value by 32768,
  multiplication by 32768 (a power of two; the one rounding case, overflow to infinity,
  is written out) and clipping. Negative zero is not distinguished from zero: no
  operation below tells them apart.
\<close>

datatype fl = Fin real | PInf | NInf | NaN

text \<open>Python's \<open>a < b\<close> on floats: false as soon as one side is NaN.\<close>

fun fl_less :: "fl \<Rightarrow> fl \<Rightarrow> bool" where
  "fl_less NaN _ = False"
| "fl_less _ NaN = False"
| "fl_less (Fin a) (Fin b) = (a < b)"
| "fl_less (Fin a) PInf = True"
| "fl_less (Fin a) NInf = False"
| "fl_less PInf _ = False"
| "fl_less NInf NInf = False"
| "fl_less NInf _ = True"

text \<open>
  Python's builtin \<open>min(a, b)\<close> and \<open>max(a, b)\<close> keep the first argument unless
  the second is strictly smaller (greater).
\<close>

definition py_min :: "fl \<Rightarrow> fl \<Rightarrow> fl" where
  "py_min a b = (if fl_less b a then b else a)"

definition py_max :: "fl \<Rightarrow> fl \<Rightarrow> fl" where
  "py_max a b = (if fl_less a b then b else a)"

text \<open>The expression \<open>max(0.0, min(1.0, x))\<close> of \<open>__init__\<close> and \<open>process_frame\<close>.\<close>

definition clamp_strength :: "fl \<Rightarrow> fl" where
  "clamp_strength x = py_max (Fin 0) (py_min (Fin 1) x)"

definition in_unit_interval :: "fl \<Rightarrow> bool" where
  "in_unit_interval v = (case v of Fin r \<Rightarrow> 0 \<le> r \<and> r \<le> 1 | _ \<Rightarrow> False)"

subsection \<open>Errors\<close>

datatype error =
    ValueError      \<comment> \<open>numpy: buffer size, reshape, concatenate, negative dimension\<close>
  | TypeError       \<comment> \<open>comparison of a float with a value that is not a number\<close>
  | EngineError     \<comment> \<open>the constructor of the external engine raised\<close>
  | NoSuchObject    \<comment> \<open>a handle that names no object: not a state Python can be in\<close>

subsection \<open>Bytes and 16-bit PCM\<close>

type_synonym byte = "8 word"
type_synonym int16 = "16 word"

text \<open>Little-endian decoding of consecutive byte pairs.\<close>

fun le16s :: "byte list \<Rightarrow> int16 list" where
  "le16s (lo # hi # rest) = word_cat hi lo # le16s rest"
| "le16s _ = []"

text \<open>\<open>np.frombuffer(audio, dtype=np.int16)\<close>: the byte count must be even.\<close>

definition frombuffer_int16 :: "byte list \<Rightarrow> error + int16 list" where
  "frombuffer_int16 audio =
     (if odd (length audio) then Inl ValueError else Inr (le16s audio))"

text \<open>\<open>output.tobytes()\<close> of an int16 array.\<close>

fun tobytes :: "int16 list \<Rightarrow> byte list" where
  "tobytes [] = []"
| "tobytes (w # ws) = ucast w # ucast (drop_bit 8 w) # tobytes ws"

text \<open>\<open>.astype(np.float32)\<close> followed by \<open>/ 32768.0\<close>, for one sample.\<close>

definition normalize :: "int16 \<Rightarrow> fl" where
  "normalize w = Fin (real_of_int (sint w) / 32768)"

subsection \<open>Conversion back to int16\<close>

definition f32_max :: real where
  "f32_max = 2 ^ 128 - 2 ^ 104"

text \<open>\<open>output * 32768.0\<close> in float32.\<close>

definition scale :: "fl \<Rightarrow> fl" where
  "scale v = (case v of
       Fin r \<Rightarrow> (if f32_max < r * 32768 then PInf
                 else if r * 32768 < - f32_max then NInf
                 else Fin (r * 32768))
     | PInf \<Rightarrow> PInf | NInf \<Rightarrow> NInf | NaN \<Rightarrow> NaN)"

text \<open>\<open>np.clip(x, lo, hi)\<close> for one element: NaN propagates.\<close>

definition np_clip :: "fl \<Rightarrow> real \<Rightarrow> real \<Rightarrow> fl" where
  "np_clip v lo hi = (case v of
       Fin r \<Rightarrow> Fin (min (max r lo) hi)
     | PInf \<Rightarrow> Fin hi | NInf \<Rightarrow> Fin lo | NaN \<Rightarrow> NaN)"

text \<open>The value handed to \<open>.astype(np.int16)\<close>.\<close>

definition clipped :: "fl \<Rightarrow> fl" where
  "clipped v = np_clip (scale v) (- 32768) 32767"

text \<open>C's conversion of a float to an integer rounds towards zero.\<close>

definition trunc :: "real \<Rightarrow> int" where
  "trunc r = (if 0 \<le> r then \<lfloor>r\<rfloor> else \<lceil>r\<rceil>)"

definition in_int16_range :: "fl \<Rightarrow> bool" where
  "in_int16_range v = (case v of Fin r \<Rightarrow> - 32768 \<le> r \<and> r \<le> 32767 | _ \<Rightarrow> False)"

section \<open>The external engine and the platform\<close>

text \<open>
  \<open>RealTimeL\<close> comes from the third-party package \<open>aicoustics\<close> and is opaque; its
  operations are parameters of the model, over a type \<open>'e\<close> of engine states.
  \<open>process_deinterleaved\<close> writes into the array it is given, so it determines the
  new value at each (channel, index) position and cannot change the array's shape.
  \<open>invalid_cast\<close> is the int16 that numpy's cast produces for a value that is not a
  finite number; C leaves it undefined and it differs between platforms.
\<close>

record 'e env =
  construct :: "string \<Rightarrow> int \<Rightarrow> int \<Rightarrow> int \<Rightarrow> 'e option"
  set_enhancement_strength :: "fl \<Rightarrow> 'e \<Rightarrow> 'e"
  process_deinterleaved :: "fl list list \<Rightarrow> 'e \<Rightarrow> (nat \<Rightarrow> nat \<Rightarrow> fl) \<times> 'e"
  invalid_cast :: int16

text \<open>\<open>.astype(np.int16)\<close> for one element.\<close>

definition astype_int16 :: "'e env \<Rightarrow> fl \<Rightarrow> int16" where
  "astype_int16 env v = (case v of Fin r \<Rightarrow> word_of_int (trunc r) | _ \<Rightarrow> invalid_cast env)"

text \<open>\<open>np.clip(output * 32768.0, -32768, 32767).astype(np.int16)\<close> for one element.\<close>

definition to_pcm16 :: "'e env \<Rightarrow> fl \<Rightarrow> int16" where
  "to_pcm16 env v = astype_int16 env (clipped v)"

section \<open>AiCousticsProcessorManager\<close>

text \<open>
  Objects live in a store addressed by handles; a handle is the identity of an object.
  The class attribute \<open>_instances\<close> maps a key to a handle. An engine object records
  the arguments it was constructed with.
\<close>

type_synonym handle = nat
type_synonym key = "int \<times> int \<times> int"

record 'e engine_obj =
  ctor_license :: string
  ctor_channels :: int
  ctor_rate :: int
  ctor_frames :: int
  estate :: 'e

record 'e world =
  instances :: "key \<rightharpoonup> handle"
  objects :: "handle \<rightharpoonup> 'e engine_obj"
  next_handle :: handle

definition empty_world :: "'e world" where
  "empty_world = \<lparr>instances = Map.empty, objects = Map.empty, next_handle = 0\<rparr>"

definition get_processor ::
  "'e env \<Rightarrow> 'e world \<Rightarrow> string \<Rightarrow> int \<Rightarrow> int \<Rightarrow> int \<Rightarrow> error + (handle \<times> 'e world)" where
  "get_processor env w lk sr nc nf =
     (let k = (sr, nc, nf) in
      case instances w k of
        Some h \<Rightarrow> Inr (h, w)
      | None \<Rightarrow>
          (case construct env lk nc sr nf of
             None \<Rightarrow> Inl EngineError
           | Some e \<Rightarrow>
               (let h = next_handle w;
                    obj = \<lparr>ctor_license = lk, ctor_channels = nc, ctor_rate = sr,
                           ctor_frames = nf, estate = e\<rparr>
                in Inr (h, w\<lparr>instances := (instances w)(k \<mapsto> h),
                             objects := (objects w)(h \<mapsto> obj),
                             next_handle := Suc h\<rparr>))))"

text \<open>
  The store is well formed when every handle in use is below the allocation counter,
  every registered handle names an object, and distinct keys hold distinct handles.
  The empty store is well formed and \<open>get_processor\<close> keeps it so.
\<close>

definition wf_world :: "'e world \<Rightarrow> bool" where
  "wf_world w \<longleftrightarrow>
     (\<forall>k h. instances w k = Some h \<longrightarrow> h < next_handle w \<and> objects w h \<noteq> None) \<and>
     (\<forall>h. objects w h \<noteq> None \<longrightarrow> h < next_handle w) \<and>
     (\<forall>k k' h. instances w k = Some h \<and> instances w k' = Some h \<longrightarrow> k = k')"

section \<open>numpy arrays\<close>

text \<open>
  The buffer is the one-dimensional empty array of \<open>__init__\<close> and \<open>stop\<close>, or a
  two-dimensional array of shape (channels, samples), held as the list of its rows.
\<close>

datatype ndarray = A1 "fl list" | A2 "fl list list"

definition nd_size :: "ndarray \<Rightarrow> nat" where
  "nd_size b = (case b of A1 xs \<Rightarrow> length xs | A2 rows \<Rightarrow> sum_list (map length rows))"

text \<open>\<open>.shape[1]\<close> of a two-dimensional array with at least one row.\<close>

definition shape1 :: "fl list list \<Rightarrow> nat" where
  "shape1 rows = (case rows of [] \<Rightarrow> 0 | r # _ \<Rightarrow> length r)"

text \<open>\<open>data.reshape(-1, c).T\<close>: row \<open>ch\<close> holds the samples at positions \<open>i * c + ch\<close>.\<close>

definition deinterleave :: "nat \<Rightarrow> fl list \<Rightarrow> fl list list" where
  "deinterleave c xs = map (\<lambda>ch. map (\<lambda>i. xs ! (i * c + ch)) [0..<length xs div c]) [0..<c]"

text \<open>
  Lines 165 to 169. \<open>reshape(-1, c)\<close> raises unless \<open>c\<close> is positive and divides the
  number of samples.
\<close>

definition reshape_channels :: "int \<Rightarrow> fl list \<Rightarrow> error + fl list list" where
  "reshape_channels c xs =
     (if c = 1 then Inr [xs]
      else if c \<le> 0 \<or> int (length xs) mod c \<noteq> 0 then Inl ValueError
      else Inr (deinterleave (nat c) xs))"

text \<open>
  Lines 172 to 175. \<open>np.concatenate(..., axis=1)\<close> raises on a one-dimensional array and
  on arrays whose row counts differ.
\<close>

definition append_buffer :: "ndarray \<Rightarrow> fl list list \<Rightarrow> error + fl list list" where
  "append_buffer b d =
     (if nd_size b = 0 then Inr d
      else case b of
        A1 _ \<Rightarrow> Inl ValueError
      | A2 rows \<Rightarrow> if length rows \<noteq> length d then Inl ValueError
                   else Inr (map2 (@) rows d))"

text \<open>\<open>buffer[:, :n]\<close> and \<open>buffer[:, n:]\<close> for \<open>n \<ge> 0\<close>.\<close>

definition extract_chunk :: "int \<Rightarrow> fl list list \<Rightarrow> fl list list" where
  "extract_chunk nf rows = map (take (nat nf)) rows"

definition remaining :: "int \<Rightarrow> fl list list \<Rightarrow> fl list list" where
  "remaining nf rows = map (drop (nat nf)) rows"

text \<open>\<open>np.zeros((c, nf))\<close> for non-negative dimensions.\<close>

definition zeros :: "int \<Rightarrow> int \<Rightarrow> fl list list" where
  "zeros c nf = replicate (nat c) (replicate (nat nf) (Fin 0))"

text \<open>
  \<open>padded[:, :chunk.shape[1]] = chunk\<close>: each row of \<open>chunk\<close> overwrites the start of the
  same row of \<open>padded\<close>. Inside \<open>filter\<close> both arrays have as many rows as the adapter
  has channels.
\<close>

definition assign_prefix :: "fl list list \<Rightarrow> fl list list \<Rightarrow> fl list list" where
  "assign_prefix padded chunk = map2 (\<lambda>p c. c @ drop (length c) p) padded chunk"

text \<open>The array after the engine wrote \<open>f ch i\<close> at every position of it.\<close>

definition written :: "(nat \<Rightarrow> nat \<Rightarrow> fl) \<Rightarrow> fl list list \<Rightarrow> fl list list" where
  "written f arr = map (\<lambda>ch. map (f ch) [0..<length (arr ! ch)]) [0..<length arr]"

text \<open>\<open>padded_chunk[:, :chunk.shape[1]]\<close>.\<close>

definition valid_part :: "fl list list \<Rightarrow> fl list list \<Rightarrow> fl list list" where
  "valid_part chunk padded = map (take (shape1 chunk)) padded"

text \<open>\<open>np.concatenate(output_chunks, axis=1)\<close> on a non-empty list of chunks.\<close>

definition concatenate_axis1 :: "fl list list list \<Rightarrow> fl list list" where
  "concatenate_axis1 chunks =
     (case chunks of [] \<Rightarrow> [] | c # cs \<Rightarrow> foldl (\<lambda>a b. map2 (@) a b) c cs)"

text \<open>Lines 202 to 205: \<open>output.flatten()\<close> for mono, \<open>output.T.flatten()\<close> otherwise.\<close>

definition flatten_out :: "int \<Rightarrow> fl list list \<Rightarrow> fl list" where
  "flatten_out c rows = (if c = 1 then concat rows else concat (transpose rows))"

text \<open>Lines 199 to 210.\<close>

definition encode_output :: "'e env \<Rightarrow> int \<Rightarrow> fl list list list \<Rightarrow> byte list" where
  "encode_output env c chunks =
     tobytes (map (to_pcm16 env) (flatten_out c (concatenate_axis1 chunks)))"

section \<open>AiCousticsFilter\<close>

record adapter =
  license_key :: string
  channels :: int
  num_frames :: int
  enhancement_strength :: fl
  sample_rate :: int
  filtering :: bool
  enhancer :: "handle option"
  buffer :: ndarray

text \<open>\<open>__init__\<close>.\<close>

definition init :: "string \<Rightarrow> int \<Rightarrow> int \<Rightarrow> fl \<Rightarrow> adapter" where
  "init lk c nf es =
     \<lparr>license_key = lk, channels = c, num_frames = nf,
      enhancement_strength = clamp_strength es, sample_rate = 0, filtering = True,
      enhancer = None, buffer = A1 []\<rparr>"

text \<open>A method call on the engine object behind a handle.\<close>

definition call_set_strength :: "'e env \<Rightarrow> fl \<Rightarrow> handle \<Rightarrow> 'e world \<Rightarrow> error + 'e world" where
  "call_set_strength env s h w =
     (case objects w h of
        None \<Rightarrow> Inl NoSuchObject
      | Some obj \<Rightarrow>
          Inr (w\<lparr>objects := (objects w)(h \<mapsto> obj\<lparr>estate := set_enhancement_strength env s (estate obj)\<rparr>)\<rparr>))"

definition call_process ::
  "'e env \<Rightarrow> handle \<Rightarrow> fl list list \<Rightarrow> 'e world \<Rightarrow> error + ((nat \<Rightarrow> nat \<Rightarrow> fl) \<times> 'e world)" where
  "call_process env h arr w =
     (case objects w h of
        None \<Rightarrow> Inl NoSuchObject
      | Some obj \<Rightarrow>
          (case process_deinterleaved env arr (estate obj) of
             (f, e') \<Rightarrow> Inr (f, w\<lparr>objects := (objects w)(h \<mapsto> obj\<lparr>estate := e'\<rparr>)\<rparr>)))"

text \<open>
  \<open>start\<close>. Logging is not modelled: it changes no state, and the percentages it formats
  come from stored strengths, which are finite.
\<close>

definition start :: "'e env \<Rightarrow> adapter \<Rightarrow> int \<Rightarrow> 'e world \<Rightarrow> error + (adapter \<times> 'e world)" where
  "start env a sr w =
     (case get_processor env w (license_key a) sr (channels a) (num_frames a) of
        Inl e \<Rightarrow> Inl e
      | Inr (h, w1) \<Rightarrow>
          (case call_set_strength env (enhancement_strength a) h w1 of
             Inl e \<Rightarrow> Inl e
           | Inr w2 \<Rightarrow> Inr (a\<lparr>sample_rate := sr, enhancer := Some h\<rparr>, w2)))"

text \<open>\<open>stop\<close>.\<close>

definition stop :: "adapter \<Rightarrow> adapter" where
  "stop a = a\<lparr>enhancer := None, buffer := A1 []\<rparr>"

text \<open>
  Control frames. A settings value is any Python object: a number, or something a float
  cannot be compared with.
\<close>

datatype pyval = Number fl | NotANumber

datatype frame =
    FilterEnableFrame bool
  | FilterUpdateSettingsFrame "string \<rightharpoonup> pyval"
  | OtherControlFrame

text \<open>\<open>process_frame\<close>.\<close>

definition process_frame ::
  "'e env \<Rightarrow> adapter \<Rightarrow> frame \<Rightarrow> 'e world \<Rightarrow> error + (adapter \<times> 'e world)" where
  "process_frame env a fr w =
     (case fr of
        FilterEnableFrame en \<Rightarrow> Inr (a\<lparr>filtering := en\<rparr>, w)
      | FilterUpdateSettingsFrame settings \<Rightarrow>
          (case settings ''enhancement_strength'' of
             None \<Rightarrow> Inr (a, w)
           | Some NotANumber \<Rightarrow> Inl TypeError
           | Some (Number x) \<Rightarrow>
               (let a' = a\<lparr>enhancement_strength := clamp_strength x\<rparr> in
                case enhancer a of
                  None \<Rightarrow> Inr (a', w)
                | Some h \<Rightarrow>
                    (case call_set_strength env (clamp_strength x) h w of
                       Inl e \<Rightarrow> Inl e
                     | Inr w' \<Rightarrow> Inr (a', w'))))
      | OtherControlFrame \<Rightarrow> Inr (a, w))"

text \<open>
  The body of the \<open>while\<close> loop of \<open>filter\<close>, lines 180 to 192, on the rows of the
  buffer, the list of output chunks and the store. With a negative \<open>num_frames\<close>,
  \<open>np.zeros\<close> raises.
\<close>

definition loop_body ::
  "'e env \<Rightarrow> handle \<Rightarrow> int \<Rightarrow> int \<Rightarrow> fl list list \<Rightarrow> fl list list list \<Rightarrow> 'e world
     \<Rightarrow> error + (fl list list \<times> fl list list list \<times> 'e world)" where
  "loop_body env h c nf rows out w =
     (if nf < 0 then Inl ValueError
      else
        (let chunk = extract_chunk nf rows;
             rest = remaining nf rows;
             padded = assign_prefix (zeros c nf) chunk
         in case call_process env h padded w of
              Inl e \<Rightarrow> Inl e
            | Inr (f, w') \<Rightarrow> Inr (rest, out @ [valid_part chunk (written f padded)], w')))"

text \<open>
  The \<open>while\<close> loop, lines 179 to 192. It does not return when \<open>num_frames\<close> is 0;
  not returning is the value \<open>None\<close>.
\<close>

partial_function (option) chunk_loop ::
  "'e env \<Rightarrow> handle \<Rightarrow> int \<Rightarrow> int \<Rightarrow> fl list list \<Rightarrow> fl list list list \<Rightarrow> 'e world
     \<Rightarrow> (error + (fl list list \<times> fl list list list \<times> 'e world)) option" where
  "chunk_loop env h c nf rows out w =
     (if nf \<le> int (shape1 rows) then
        (case loop_body env h c nf rows out w of
           Inl e \<Rightarrow> Some (Inl e)
         | Inr (rows', out', w') \<Rightarrow> chunk_loop env h c nf rows' out' w')
      else Some (Inr (rows, out, w)))"

text \<open>
  \<open>filter\<close>. The guard of line 155 is the first two cases. The result is the returned
  bytes, the adapter and the store; a raised exception is \<open>Inl\<close>, and the state it
  leaves behind is not modelled.
\<close>

definition filter_audio ::
  "'e env \<Rightarrow> adapter \<Rightarrow> byte list \<Rightarrow> 'e world
     \<Rightarrow> (error + (byte list \<times> adapter \<times> 'e world)) option" where
  "filter_audio env a audio w =
     (case enhancer a of
        None \<Rightarrow> Some (Inr (audio, a, w))
      | Some h \<Rightarrow>
          if \<not> filtering a then Some (Inr (audio, a, w))
          else
            (case frombuffer_int16 audio of
               Inl e \<Rightarrow> Some (Inl e)
             | Inr ws \<Rightarrow>
                 (case reshape_channels (channels a) (map normalize ws) of
                    Inl e \<Rightarrow> Some (Inl e)
                  | Inr d \<Rightarrow>
                      (case append_buffer (buffer a) d of
                         Inl e \<Rightarrow> Some (Inl e)
                       | Inr rows \<Rightarrow>
                           (case chunk_loop env h (channels a) (num_frames a) rows [] w of
                              None \<Rightarrow> None
                            | Some (Inl e) \<Rightarrow> Some (Inl e)
                            | Some (Inr (rows', chunks, w')) \<Rightarrow>
                                if chunks = []
                                then Some (Inr (audio, a\<lparr>buffer := A2 rows'\<rparr>, w'))
                                else Some (Inr (encode_output env (channels a) chunks,
                                                a\<lparr>buffer := A2 rows'\<rparr>, w')))))))"

text \<open>What a call returned, and the states it left.\<close>

definition returned ::
  "(error + (byte list \<times> adapter \<times> 'e world)) option \<Rightarrow> byte list option" where
  "returned r = (case r of Some (Inr (out, a, w)) \<Rightarrow> Some out | _ \<Rightarrow> None)"

definition adapter_after ::
  "(error + (byte list \<times> adapter \<times> 'e world)) option \<Rightarrow> adapter option" where
  "adapter_after r = (case r of Some (Inr (out, a, w)) \<Rightarrow> Some a | _ \<Rightarrow> None)"

definition world_after ::
  "(error + (byte list \<times> adapter \<times> 'e world)) option \<Rightarrow> 'e world option" where
  "world_after r = (case r of Some (Inr (out, a, w)) \<Rightarrow> Some w | _ \<Rightarrow> None)"

text \<open>The per-channel number of buffered samples.\<close>

definition buffered :: "ndarray \<Rightarrow> nat" where
  "buffered b = (case b of A1 xs \<Rightarrow> length xs | A2 rows \<Rightarrow> shape1 rows)"

text \<open>
  A two-dimensional array has rows of one length. The buffer of an adapter with \<open>c\<close>
  channels is the empty one-dimensional array or has \<open>c\<close> such rows.
\<close>

definition rectangular :: "fl list list \<Rightarrow> bool" where
  "rectangular rows \<longleftrightarrow> list_all (\<lambda>r. length r = shape1 rows) rows"

definition wf_buffer :: "int \<Rightarrow> ndarray \<Rightarrow> bool" where
  "wf_buffer c b =
     (case b of A1 xs \<Rightarrow> xs = [] | A2 rows \<Rightarrow> int (length rows) = c \<and> rectangular rows)"

text \<open>The rows of the buffer, the empty one-dimensional array read as \<open>c\<close> empty rows.\<close>

definition buffer_rows :: "int \<Rightarrow> ndarray \<Rightarrow> fl list list" where
  "buffer_rows c b = (case b of A1 xs \<Rightarrow> replicate (nat c) [] | A2 rows \<Rightarrow> rows)"

section \<open>A test configuration\<close>

text \<open>
  An engine stub that leaves every chunk as it is, on a platform whose invalid casts
  give 0; and a mono adapter with chunks of four samples, started on the empty store.
\<close>

definition identity_env :: "unit env" where
  "identity_env =
     \<lparr>construct = (\<lambda>lk nc sr nf. Some ()),
      set_enhancement_strength = (\<lambda>s e. e),
      process_deinterleaved = (\<lambda>arr e. (\<lambda>ch i. arr ! ch ! i, e)),
      invalid_cast = 0\<rparr>"

definition test_obj :: "unit engine_obj" where
  "test_obj =
     \<lparr>ctor_license = ''key'', ctor_channels = 1, ctor_rate = 16000, ctor_frames = 4,
      estate = ()\<rparr>"

definition test_world :: "unit world" where
  "test_world =
     \<lparr>instances = [(16000, 1, 4) \<mapsto> 0], objects = [0 \<mapsto> test_obj], next_handle = 1\<rparr>"

definition test_adapter :: adapter where
  "test_adapter =
     \<lparr>license_key = ''key'', channels = 1, num_frames = 4,
      enhancement_strength = Fin 1, sample_rate = 16000, filtering = True,
      enhancer = Some 0, buffer = A1 []\<rparr>"

text \<open>
  The configuration of the scenario in the specification: a mono adapter with the
  default chunk size of 512 samples, started at 16000 Hz on the empty store.
\<close>

definition scenario_obj :: "unit engine_obj" where
  "scenario_obj =
     \<lparr>ctor_license = ''key'', ctor_channels = 1, ctor_rate = 16000, ctor_frames = 512,
      estate = ()\<rparr>"

definition scenario_world :: "unit world" where
  "scenario_world =
     \<lparr>instances = [(16000, 1, 512) \<mapsto> 0], objects = [0 \<mapsto> scenario_obj],
      next_handle = 1\<rparr>"

definition scenario_adapter :: adapter where
  "scenario_adapter =
     \<lparr>license_key = ''key'', channels = 1, num_frames = 512,
      enhancement_strength = Fin 1, sample_rate = 16000, filtering = True,
      enhancer = Some 0, buffer = A1 []\<rparr>"

text \<open>An engine stub that writes NaN at every position of the chunk.\<close>

definition nan_env :: "unit env" where
  "nan_env =
     \<lparr>construct = (\<lambda>lk nc sr nf. Some ()),
      set_enhancement_strength = (\<lambda>s e. e),
      process_deinterleaved = (\<lambda>arr e. (\<lambda>ch i. NaN, e)),
      invalid_cast = 0\<rparr>"

section \<open>The chunk loop\<close>

lemma chunk_loop_exit:
  "int (shape1 rows) < nf \<Longrightarrow> chunk_loop env h c nf rows out w = Some (Inr (rows, out, w))"
  by (subst chunk_loop.simps) simp

lemma chunk_loop_step:
  "nf \<le> int (shape1 rows) \<Longrightarrow>
   chunk_loop env h c nf rows out w =
     (case loop_body env h c nf rows out w of
        Inl e \<Rightarrow> Some (Inl e)
      | Inr (rows', out', w') \<Rightarrow> chunk_loop env h c nf rows' out' w')"
  by (subst chunk_loop.simps) simp

lemma shape1_remaining: "shape1 (remaining nf rows) = shape1 rows - nat nf"
  by (cases rows) (simp_all add: shape1_def remaining_def)

lemma loop_body_rows:
  "loop_body env h c nf rows out w = Inr (rows', out', w') \<Longrightarrow> rows' = remaining nf rows"
  by (auto simp: loop_body_def Let_def split: if_splits sum.splits prod.splits)

text \<open>
  With a positive chunk size the loop returns, and what it leaves in the buffer is
  shorter than a chunk: every round removes \<open>num_frames\<close> samples per channel.
\<close>

lemma chunk_loop_returns:
  "0 < nf \<Longrightarrow>
   \<exists>r. chunk_loop env h c nf rows out w = Some r \<and>
       (\<forall>rows' out' w'. r = Inr (rows', out', w') \<longrightarrow> int (shape1 rows') < nf)"
proof (induction "shape1 rows" arbitrary: rows out w rule: less_induct)
  case less
  show ?case
  proof (cases "nf \<le> int (shape1 rows)")
    case False
    then show ?thesis by (simp add: chunk_loop_exit)
  next
    case guard: True
    show ?thesis
    proof (cases "loop_body env h c nf rows out w")
      case (Inl e)
      with guard show ?thesis by (simp add: chunk_loop_step)
    next
      case (Inr t)
      obtain rows' out' w' where t: "t = (rows', out', w')" by (cases t) auto
      from Inr t have r: "rows' = remaining nf rows" by (auto dest: loop_body_rows)
      with guard less.prems have "shape1 rows' < shape1 rows"
        by (simp add: shape1_remaining)
      from less.hyps [OF this less.prems, of out' w'] Inr t guard
      show ?thesis by (simp add: chunk_loop_step)
    qed
  qed
qed

section \<open>The test configuration is reachable\<close>

lemma test_start:
  "start identity_env (init ''key'' 1 4 (Fin 1)) 16000 empty_world
     = Inr (test_adapter, test_world)"
  by (simp add: start_def init_def get_processor_def empty_world_def identity_env_def
      call_set_strength_def test_adapter_def test_world_def test_obj_def clamp_strength_def
      py_min_def py_max_def Let_def)

section \<open>Pass-through\<close>

text \<open>
  C1. When filtering is disabled or no engine is bound, \<open>filter\<close> returns the bytes it
  was given, whatever they are (their length may be odd).
\<close>

theorem filter_disabled_identity:
  "\<not> filtering a \<or> enhancer a = None \<Longrightarrow> returned (filter_audio env a audio w) = Some audio"
  by (auto simp: filter_audio_def returned_def split: option.splits)

theorem filter_disabled_identity_witness:
  "\<not> filtering (test_adapter\<lparr>filtering := False\<rparr>) \<and>
   returned (filter_audio identity_env (test_adapter\<lparr>filtering := False\<rparr>) [1, 0, 2] test_world)
     = Some [1, 0, 2]"
  using filter_disabled_identity
    [of "test_adapter\<lparr>filtering := False\<rparr>" identity_env "[1, 0, 2]" test_world]
  by simp

text \<open>
  C10. When filtering is disabled or no engine is bound, a \<open>filter\<close> call changes
  nothing: the adapter it leaves is the adapter it found (buffer, strength, channel
  count and chunk size included; the input is not buffered), and so is the store.
\<close>

theorem filter_disabled_no_effect:
  "\<not> filtering a \<or> enhancer a = None \<Longrightarrow>
   adapter_after (filter_audio env a audio w) = Some a \<and>
   world_after (filter_audio env a audio w) = Some w"
  by (auto simp: filter_audio_def adapter_after_def world_after_def split: option.splits)

theorem filter_disabled_no_effect_witness:
  "enhancer (stop test_adapter) = None \<and>
   adapter_after (filter_audio identity_env (stop test_adapter) [1, 0, 2, 0] test_world)
     = Some (stop test_adapter) \<and>
   world_after (filter_audio identity_env (stop test_adapter) [1, 0, 2, 0] test_world)
     = Some test_world"
  using filter_disabled_no_effect [of "stop test_adapter" identity_env "[1, 0, 2, 0]" test_world]
  by (simp add: stop_def)

section \<open>The buffer after a call\<close>

text \<open>
  C2. If fewer than \<open>num_frames\<close> samples per channel are buffered before a \<open>filter\<close>
  call, the call does not run forever, and when it completes the number of buffered
  samples per channel is at least 0 and below \<open>num_frames\<close>.
\<close>

theorem filter_drains_buffer:
  assumes "int (buffered (buffer a)) < num_frames a"
  shows "(\<exists>r. filter_audio env a audio w = Some r) \<and>
         (\<forall>a'. adapter_after (filter_audio env a audio w) = Some a' \<longrightarrow>
            0 \<le> int (buffered (buffer a')) \<and> int (buffered (buffer a')) < num_frames a')"
proof (cases "filtering a \<and> enhancer a \<noteq> None")
  case False
  with assms show ?thesis
    by (auto simp: filter_audio_def adapter_after_def split: option.splits)
next
  case True
  then obtain h where h: "enhancer a = Some h" and en: "filtering a" by auto
  from assms have pos: "0 < num_frames a" by simp
  show ?thesis
  proof (cases "frombuffer_int16 audio")
    case (Inl e)
    with h en show ?thesis by (simp add: filter_audio_def adapter_after_def)
  next
    case ws: (Inr ws)
    show ?thesis
    proof (cases "reshape_channels (channels a) (map normalize ws)")
      case (Inl e)
      with h en ws show ?thesis by (simp add: filter_audio_def adapter_after_def)
    next
      case d: (Inr d)
      show ?thesis
      proof (cases "append_buffer (buffer a) d")
        case (Inl e)
        with h en ws d show ?thesis by (simp add: filter_audio_def adapter_after_def)
      next
        case rows: (Inr rows)
        from chunk_loop_returns [OF pos, of env h "channels a" rows "[]" w]
        obtain r where r: "chunk_loop env h (channels a) (num_frames a) rows [] w = Some r"
          and bound: "\<And>rows' out' w'. r = Inr (rows', out', w') \<Longrightarrow>
                        int (shape1 rows') < num_frames a"
          by blast
        show ?thesis
        proof (cases r)
          case (Inl e)
          with h en ws d rows r show ?thesis by (simp add: filter_audio_def adapter_after_def)
        next
          case (Inr t)
          obtain rows' out' w' where t: "t = (rows', out', w')" by (cases t) auto
          from bound Inr t have "int (shape1 rows') < num_frames a" by simp
          with h en ws d rows r Inr t show ?thesis
            by (simp add: filter_audio_def adapter_after_def buffered_def)
        qed
      qed
    qed
  qed
qed

text \<open>
  Five samples into the started test adapter: one chunk of four is processed and one
  sample stays behind.
\<close>

theorem filter_drains_buffer_witness:
  "int (buffered (buffer test_adapter)) < num_frames test_adapter \<and>
   adapter_after
     (filter_audio identity_env test_adapter [1, 0, 2, 0, 3, 0, 4, 0, 5, 0] test_world)
     = Some (test_adapter\<lparr>buffer := A2 [[normalize 5]]\<rparr>) \<and>
   int (buffered (buffer (test_adapter\<lparr>buffer := A2 [[normalize 5]]\<rparr>)))
     < num_frames (test_adapter\<lparr>buffer := A2 [[normalize 5]]\<rparr>)"
proof -
  have hyp: "int (buffered (buffer test_adapter)) < num_frames test_adapter"
    by (simp add: test_adapter_def buffered_def)
  have run: "adapter_after
     (filter_audio identity_env test_adapter [1, 0, 2, 0, 3, 0, 4, 0, 5, 0] test_world)
     = Some (test_adapter\<lparr>buffer := A2 [[normalize 5]]\<rparr>)"
    by (simp add: filter_audio_def adapter_after_def test_adapter_def test_world_def
        test_obj_def identity_env_def frombuffer_int16_def reshape_channels_def
        append_buffer_def nd_size_def chunk_loop.simps loop_body_def shape1_def
        extract_chunk_def remaining_def zeros_def assign_prefix_def call_process_def
        valid_part_def written_def Let_def word_cat_eq)
  from filter_drains_buffer
    [OF hyp, of identity_env "[1, 0, 2, 0, 3, 0, 4, 0, 5, 0]" test_world] hyp run
  show ?thesis by simp
qed

section \<open>Appending to the buffer\<close>

lemma map2_append_Nil_left:
  "\<forall>r\<in>set rows. r = [] \<Longrightarrow> length rows = length d \<Longrightarrow> map2 (@) rows d = d"
  by (induction rows d rule: list_induct2') auto

lemma nd_size_A2_zero: "nd_size (A2 rows) = 0 \<longleftrightarrow> (\<forall>r\<in>set rows. r = [])"
  by (induction rows) (auto simp: nd_size_def)

lemma append_buffer_wf:
  assumes "wf_buffer c b" and "int (length d) = c"
  shows "append_buffer b d = Inr (map2 (@) (buffer_rows c b) d)"
proof (cases b)
  case (A1 xs)
  with assms have "xs = []" by (simp add: wf_buffer_def)
  moreover from assms have "map2 (@) (replicate (nat c) []) d = d"
    by (intro map2_append_Nil_left) auto
  ultimately show ?thesis using A1
    by (simp add: append_buffer_def nd_size_def buffer_rows_def)
next
  case (A2 rows)
  with assms have len: "length rows = length d" by (auto simp: wf_buffer_def)
  show ?thesis
  proof (cases "nd_size (A2 rows) = 0")
    case True
    then have "map2 (@) rows d = d"
      using len by (intro map2_append_Nil_left) (simp_all add: nd_size_A2_zero)
    with True A2 show ?thesis by (simp add: append_buffer_def buffer_rows_def)
  next
    case False
    with A2 len show ?thesis by (simp add: append_buffer_def buffer_rows_def)
  qed
qed

lemma reshape_channels_rows:
  "reshape_channels c xs = Inr d \<Longrightarrow> int (length d) = c \<and> 0 < c"
  by (auto simp: reshape_channels_def deinterleave_def split: if_splits)

lemma shape1_map2_append:
  "length rows = length d \<Longrightarrow> shape1 (map2 (@) rows d) = shape1 rows + shape1 d"
  by (cases rows; cases d) (simp_all add: shape1_def)

lemma buffered_buffer_rows:
  "wf_buffer c b \<Longrightarrow> buffered b = shape1 (buffer_rows c b)"
  by (cases b; cases "nat c") (auto simp: wf_buffer_def buffered_def buffer_rows_def shape1_def)

lemma length_buffer_rows:
  "wf_buffer c b \<Longrightarrow> 0 \<le> c \<Longrightarrow> int (length (buffer_rows c b)) = c"
  by (cases b) (auto simp: wf_buffer_def buffer_rows_def)

text \<open>
  C4. On an enabled, running adapter with a well-formed buffer, a \<open>filter\<close> call
  whose input decodes, and after which fewer than \<open>num_frames\<close> samples per channel
  are buffered, returns the bytes it was given; the buffer it leaves is the old buffer
  with the new samples appended channel by channel, and the store is untouched.
\<close>

theorem filter_below_chunk:
  assumes en: "filtering a" and h: "enhancer a = Some h"
    and wf: "wf_buffer (channels a) (buffer a)"
    and ws: "frombuffer_int16 audio = Inr ws"
    and d: "reshape_channels (channels a) (map normalize ws) = Inr d"
    and small: "int (buffered (buffer a) + shape1 d) < num_frames a"
  shows "filter_audio env a audio w =
           Some (Inr (audio, a\<lparr>buffer := A2 (map2 (@) (buffer_rows (channels a) (buffer a)) d)\<rparr>, w))"
proof -
  let ?rows = "map2 (@) (buffer_rows (channels a) (buffer a)) d"
  from d have len: "int (length d) = channels a" and pos: "0 < channels a"
    by (auto dest: reshape_channels_rows)
  from wf len have app: "append_buffer (buffer a) d = Inr ?rows"
    by (rule append_buffer_wf)
  from wf pos len have "length (buffer_rows (channels a) (buffer a)) = length d"
    using length_buffer_rows [of "channels a" "buffer a"] by simp
  then have "shape1 ?rows = buffered (buffer a) + shape1 d"
    using wf by (simp add: shape1_map2_append buffered_buffer_rows)
  with small have "int (shape1 ?rows) < num_frames a" by simp
  then have "chunk_loop env h (channels a) (num_frames a) ?rows [] w = Some (Inr (?rows, [], w))"
    by (rule chunk_loop_exit)
  with en h ws d app show ?thesis by (simp add: filter_audio_def)
qed


text \<open>One sample buffered, two more arrive, and a chunk has four.\<close>

theorem filter_below_chunk_witness:
  "filtering (test_adapter\<lparr>buffer := A2 [[normalize 5]]\<rparr>) \<and>
   enhancer (test_adapter\<lparr>buffer := A2 [[normalize 5]]\<rparr>) = Some 0 \<and>
   wf_buffer (channels (test_adapter\<lparr>buffer := A2 [[normalize 5]]\<rparr>))
     (buffer (test_adapter\<lparr>buffer := A2 [[normalize 5]]\<rparr>)) \<and>
   frombuffer_int16 [6, 0, 7, 0] = Inr [6, 7] \<and>
   reshape_channels (channels (test_adapter\<lparr>buffer := A2 [[normalize 5]]\<rparr>))
     (map normalize [6, 7]) = Inr [[normalize 6, normalize 7]] \<and>
   int (buffered (buffer (test_adapter\<lparr>buffer := A2 [[normalize 5]]\<rparr>))
        + shape1 [[normalize 6, normalize 7]])
     < num_frames (test_adapter\<lparr>buffer := A2 [[normalize 5]]\<rparr>) \<and>
   filter_audio identity_env (test_adapter\<lparr>buffer := A2 [[normalize 5]]\<rparr>) [6, 0, 7, 0]
       test_world
     = Some (Inr ([6, 0, 7, 0],
                  test_adapter\<lparr>buffer := A2 [[normalize 5, normalize 6, normalize 7]]\<rparr>,
                  test_world))"
proof -
  let ?a = "test_adapter\<lparr>buffer := A2 [[normalize 5]]\<rparr>"
  have en: "filtering ?a" and h: "enhancer ?a = Some 0"
    by (simp_all add: test_adapter_def)
  have wf: "wf_buffer (channels ?a) (buffer ?a)"
    by (simp add: test_adapter_def wf_buffer_def rectangular_def shape1_def)
  have ws: "frombuffer_int16 [6, 0, 7, 0] = Inr [6, 7]"
    by (simp add: frombuffer_int16_def word_cat_eq)
  have d: "reshape_channels (channels ?a) (map normalize [6, 7])
             = Inr [[normalize 6, normalize 7]]"
    by (simp add: reshape_channels_def test_adapter_def)
  have small: "int (buffered (buffer ?a) + shape1 [[normalize 6, normalize 7]])
                 < num_frames ?a"
    by (simp add: test_adapter_def buffered_def shape1_def)
  from filter_below_chunk [OF en h wf ws d small, of identity_env test_world]
    en h wf ws d small
  show ?thesis by (simp add: buffer_rows_def test_adapter_def)
qed

section \<open>The body of the chunk loop\<close>

lemma extract_chunk_full:
  assumes "0 \<le> nf" and "nf \<le> int (shape1 rows)" and "rectangular rows"
  shows "list_all (\<lambda>r. length r = nat nf) (extract_chunk nf rows)"
  using assms
  by (auto simp: extract_chunk_def rectangular_def list_all_iff)

lemma shape1_full:
  "list_all (\<lambda>r. length r = n) rows \<Longrightarrow> rows \<noteq> [] \<Longrightarrow> shape1 rows = n"
  by (cases rows) (simp_all add: shape1_def)

lemma assign_prefix_full:
  assumes "list_all (\<lambda>r. length r = nat nf) chunk" and "int (length chunk) = c"
  shows "assign_prefix (zeros c nf) chunk = chunk"
proof -
  have "map2 (\<lambda>p c. c @ drop (length c) p) (replicate (length chunk) (replicate n (Fin 0))) chunk
          = chunk" if "list_all (\<lambda>r. length r = n) chunk" for n
    using that by (induction chunk) auto
  from this [OF assms(1)] assms(2) show ?thesis
    by (auto simp: assign_prefix_def zeros_def)
qed

lemma written_rows:
  "list_all (\<lambda>r. length r = n) arr \<Longrightarrow> list_all (\<lambda>r. length r = n) (written f arr)"
  by (auto simp: written_def list_all_iff)

lemma length_written: "length (written f arr) = length arr"
  by (simp add: written_def)

lemma valid_part_full:
  assumes "list_all (\<lambda>r. length r = n) chunk" and "list_all (\<lambda>r. length r = n) arr"
    and "length arr = length chunk"
  shows "valid_part chunk arr = arr"
proof (cases chunk)
  case Nil
  with assms show ?thesis by (simp add: valid_part_def)
next
  case (Cons r rs)
  with assms(1) have "shape1 chunk = n" by (simp add: shape1_def)
  with assms(2) show ?thesis
    by (auto simp: valid_part_def list_all_iff intro: map_idI)
qed

lemma loop_body_full:
  assumes nn: "0 \<le> nf" and guard: "nf \<le> int (shape1 rows)" and rect: "rectangular rows"
    and len: "int (length rows) = c"
  shows "loop_body env h c nf rows out w =
           (case call_process env h (extract_chunk nf rows) w of
              Inl e \<Rightarrow> Inl e
            | Inr (f, w') \<Rightarrow>
                Inr (remaining nf rows, out @ [written f (extract_chunk nf rows)], w'))"
proof -
  let ?chunk = "extract_chunk nf rows"
  have full: "list_all (\<lambda>r. length r = nat nf) ?chunk"
    using nn guard rect by (rule extract_chunk_full)
  from len have "int (length ?chunk) = c" by (simp add: extract_chunk_def)
  with full have pad: "assign_prefix (zeros c nf) ?chunk = ?chunk"
    by (rule assign_prefix_full)
  have "valid_part ?chunk (written f ?chunk) = written f ?chunk" for f
    using full by (intro valid_part_full [where n = "nat nf"]) (simp_all add: written_rows length_written)
  with nn pad show ?thesis
    by (simp add: loop_body_def Let_def split: sum.splits prod.splits)
qed

text \<open>
  C8. Under the loop's guard, on a rectangular buffer and a non-negative chunk size,
  every row of the extracted chunk has exactly \<open>num_frames\<close> samples; writing it over
  the zero array gives the chunk itself, so padding adds nothing; the slice of the
  processed array that is appended is the whole processed array, with rows of
  \<open>num_frames\<close> samples; and the loop body is the body without padding and slicing.
\<close>

theorem chunk_always_full:
  assumes nn: "0 \<le> nf" and guard: "nf \<le> int (shape1 rows)" and rect: "rectangular rows"
    and len: "int (length rows) = c"
  shows "list_all (\<lambda>r. length r = nat nf) (extract_chunk nf rows) \<and>
         assign_prefix (zeros c nf) (extract_chunk nf rows) = extract_chunk nf rows \<and>
         valid_part (extract_chunk nf rows) (written f (extract_chunk nf rows))
           = written f (extract_chunk nf rows) \<and>
         list_all (\<lambda>r. length r = nat nf) (written f (extract_chunk nf rows)) \<and>
         loop_body env h c nf rows out w =
           (case call_process env h (extract_chunk nf rows) w of
              Inl e \<Rightarrow> Inl e
            | Inr (g, w') \<Rightarrow>
                Inr (remaining nf rows, out @ [written g (extract_chunk nf rows)], w'))"
proof -
  let ?chunk = "extract_chunk nf rows"
  have full: "list_all (\<lambda>r. length r = nat nf) ?chunk"
    using nn guard rect by (rule extract_chunk_full)
  from len have "int (length ?chunk) = c" by (simp add: extract_chunk_def)
  with full have pad: "assign_prefix (zeros c nf) ?chunk = ?chunk"
    by (rule assign_prefix_full)
  have valid: "valid_part ?chunk (written f ?chunk) = written f ?chunk"
    using full by (intro valid_part_full [where n = "nat nf"]) (simp_all add: written_rows length_written)
  from full have out: "list_all (\<lambda>r. length r = nat nf) (written f ?chunk)"
    by (rule written_rows)
  from full pad valid out loop_body_full [OF assms] show ?thesis by blast
qed


theorem chunk_always_full_witness:
  "(0::int) \<le> 2 \<and> 2 \<le> int (shape1 [[Fin 1, Fin 2, Fin 3]]) \<and>
   rectangular [[Fin 1, Fin 2, Fin 3]] \<and> int (length [[Fin 1, Fin 2, Fin 3]]) = 1 \<and>
   extract_chunk 2 [[Fin 1, Fin 2, Fin 3]] = [[Fin 1, Fin 2]] \<and>
   assign_prefix (zeros 1 2) (extract_chunk 2 [[Fin 1, Fin 2, Fin 3]]) = [[Fin 1, Fin 2]] \<and>
   valid_part (extract_chunk 2 [[Fin 1, Fin 2, Fin 3]])
       (written (\<lambda>ch i. Fin 0) (extract_chunk 2 [[Fin 1, Fin 2, Fin 3]]))
     = [[Fin 0, Fin 0]] \<and>
   loop_body identity_env 0 1 2 [[Fin 1, Fin 2, Fin 3]] [] test_world
     = Inr ([[Fin 3]], [[[Fin 1, Fin 2]]], test_world)"
proof -
  have hyps: "(0::int) \<le> 2" "2 \<le> int (shape1 [[Fin 1, Fin 2, Fin 3]])"
    "rectangular [[Fin 1, Fin 2, Fin 3]]" "int (length [[Fin 1, Fin 2, Fin 3]]) = 1"
    by (simp_all add: shape1_def rectangular_def)
  have chunk: "extract_chunk 2 [[Fin 1, Fin 2, Fin 3]] = [[Fin 1, Fin 2]]"
    by (simp add: extract_chunk_def)
  have wr: "written (\<lambda>ch i. Fin 0) [[Fin 1, Fin 2]] = [[Fin 0, Fin 0]]"
    by (simp add: written_def)
  have call: "call_process identity_env 0 [[Fin 1, Fin 2]] test_world
                = Inr (\<lambda>ch i. [[Fin 1, Fin 2]] ! ch ! i, test_world)"
    by (simp add: call_process_def identity_env_def test_world_def test_obj_def)
  have wr2: "written (\<lambda>ch i. [[Fin 1, Fin 2]] ! ch ! i) [[Fin 1, Fin 2]] = [[Fin 1, Fin 2]]"
    by (simp add: written_def)
  have rest: "remaining 2 [[Fin 1, Fin 2, Fin 3]] = [[Fin 3]]"
    by (simp add: remaining_def)
  from chunk_always_full [OF hyps, of "\<lambda>ch i. Fin 0" identity_env 0 "[]" test_world] hyps
  show ?thesis by (simp add: chunk wr call wr2 rest)
qed

section \<open>The scenario of the specification\<close>

lemma length_le16s: "length (le16s bs) = length bs div 2"
  by (induction bs rule: le16s.induct) simp_all

lemma length_tobytes: "length (tobytes ws) = 2 * length ws"
  by (induction ws) simp_all

lemma le16s_append: "even (length xs) \<Longrightarrow> le16s (xs @ ys) = le16s xs @ le16s ys"
  by (induction xs rule: le16s.induct) simp_all

lemma nd_size_zero_append:
  "nd_size b = 0 \<Longrightarrow> append_buffer b d = Inr d"
  by (simp add: append_buffer_def)

text \<open>
  C3. A running, enabled mono adapter with chunks of 512 samples and an empty buffer
  receives 256 samples (512 bytes): the call returns the input and leaves the 256
  samples buffered. It then receives 256 more: the engine is called once, on the 512
  buffered samples, the call returns the encoding of that one processed chunk, 1024
  bytes, and the buffer is left empty.
\<close>

theorem two_half_chunks:
  assumes mono: "channels a = 1" and nf: "num_frames a = 512"
    and en: "filtering a" and h: "enhancer a = Some h" and obj: "objects w h = Some obj"
    and empty: "nd_size (buffer a) = 0"
    and l1: "length audio1 = 512" and l2: "length audio2 = 512"
  shows "filter_audio env a audio1 w
           = Some (Inr (audio1, a\<lparr>buffer := A2 [map normalize (le16s audio1)]\<rparr>, w)) \<and>
         buffered (A2 [map normalize (le16s audio1)]) = 256 \<and>
         (\<exists>out f e'.
            filter_audio env (a\<lparr>buffer := A2 [map normalize (le16s audio1)]\<rparr>) audio2 w
              = Some (Inr (out, a\<lparr>buffer := A2 [[]]\<rparr>,
                           w\<lparr>objects := (objects w)(h \<mapsto> obj\<lparr>estate := e'\<rparr>)\<rparr>)) \<and>
            process_deinterleaved env [map normalize (le16s (audio1 @ audio2))] (estate obj)
              = (f, e') \<and>
            out = encode_output env 1 [[map (f 0) [0..<512]]] \<and>
            length out = 1024 \<and>
            buffered (A2 [[]]) = 0)"
proof -
  let ?s1 = "map normalize (le16s audio1)"
  let ?s2 = "map normalize (le16s audio2)"
  let ?x = "?s1 @ ?s2"
  let ?a1 = "a\<lparr>buffer := A2 [?s1]\<rparr>"
  have len1: "length ?s1 = 256" and len2: "length ?s2 = 256"
    using l1 l2 by (simp_all add: length_le16s)
  have dec1: "frombuffer_int16 audio1 = Inr (le16s audio1)"
    and dec2: "frombuffer_int16 audio2 = Inr (le16s audio2)"
    using l1 l2 by (simp_all add: frombuffer_int16_def)
  have first: "filter_audio env a audio1 w = Some (Inr (audio1, ?a1, w))"
  proof -
    have "chunk_loop env h 1 512 [?s1] [] w = Some (Inr ([?s1], [], w))"
      using len1 by (intro chunk_loop_exit) (simp add: shape1_def)
    with mono nf en h empty dec1 show ?thesis
      by (simp add: filter_audio_def reshape_channels_def nd_size_zero_append)
  qed
  have cnt: "buffered (A2 [?s1]) = 256"
    using len1 by (simp add: buffered_def shape1_def)
  obtain f e' where pr:
    "process_deinterleaved env [?x] (estate obj) = (f, e')"
    by (cases "process_deinterleaved env [?x] (estate obj)") auto
  let ?w' = "w\<lparr>objects := (objects w)(h \<mapsto> obj\<lparr>estate := e'\<rparr>)\<rparr>"
  have x: "map normalize (le16s (audio1 @ audio2)) = ?x"
    using l1 by (simp add: le16s_append)
  have lenx: "length ?x = 512" using len1 len2 by simp
  have body: "loop_body env h 1 512 [?x] [] w = Inr ([[]], [[map (f 0) [0..<512]]], ?w')"
  proof -
    have "loop_body env h 1 512 [?x] [] w =
            (case call_process env h (extract_chunk 512 [?x]) w of
               Inl e \<Rightarrow> Inl e
             | Inr (g, w') \<Rightarrow>
                 Inr (remaining 512 [?x], [] @ [written g (extract_chunk 512 [?x])], w'))"
      using lenx by (intro loop_body_full) (simp_all add: shape1_def rectangular_def)
    moreover have "extract_chunk 512 [?x] = [?x]"
      using lenx by (simp add: extract_chunk_def)
    moreover have "remaining 512 [?x] = [[]]"
      using lenx by (simp add: remaining_def)
    moreover have "call_process env h [?x] w = Inr (f, ?w')"
      using obj pr by (simp add: call_process_def)
    moreover have "written f [?x] = [map (f 0) [0..<512]]"
      using lenx by (simp add: written_def)
    ultimately show ?thesis by simp
  qed
  have loop: "chunk_loop env h 1 512 [?x] [] w
                = Some (Inr ([[]], [[map (f 0) [0..<512]]], ?w'))"
  proof -
    have "chunk_loop env h 1 512 [?x] [] w
            = chunk_loop env h 1 512 [[]] [[map (f 0) [0..<512]]] ?w'"
      using lenx body by (subst chunk_loop_step) (simp_all add: shape1_def)
    also have "\<dots> = Some (Inr ([[]], [[map (f 0) [0..<512]]], ?w'))"
      by (intro chunk_loop_exit) (simp add: shape1_def)
    finally show ?thesis .
  qed
  have app: "append_buffer (buffer ?a1) [?s2] = Inr [?x]"
    using len1 by (simp add: append_buffer_def nd_size_def)
  let ?out = "encode_output env 1 [[map (f 0) [0..<512]]]"
  have second: "filter_audio env ?a1 audio2 w = Some (Inr (?out, a\<lparr>buffer := A2 [[]]\<rparr>, ?w'))"
    using mono nf en h dec2 app loop
    by (simp add: filter_audio_def reshape_channels_def)
  have lout: "length ?out = 1024"
    by (simp add: encode_output_def concatenate_axis1_def flatten_out_def length_tobytes)
  have "buffered (A2 [[]]) = 0" by (simp add: buffered_def shape1_def)
  with first cnt second pr x lout show ?thesis by auto
qed

lemma scenario_start:
  "start identity_env (init ''key'' 1 512 (Fin 1)) 16000 empty_world
     = Inr (scenario_adapter, scenario_world)"
  by (simp add: start_def init_def get_processor_def empty_world_def identity_env_def
      call_set_strength_def scenario_adapter_def scenario_world_def scenario_obj_def
      clamp_strength_def py_min_def py_max_def Let_def)

text \<open>The scenario with silence as input and the engine stub.\<close>

theorem two_half_chunks_witness:
  "channels scenario_adapter = 1 \<and> num_frames scenario_adapter = 512 \<and>
   filtering scenario_adapter \<and> enhancer scenario_adapter = Some 0 \<and>
   objects scenario_world 0 = Some scenario_obj \<and>
   nd_size (buffer scenario_adapter) = 0 \<and>
   length (replicate 512 (0::byte)) = 512 \<and>
   filter_audio identity_env scenario_adapter (replicate 512 0) scenario_world
     = Some (Inr (replicate 512 0,
                  scenario_adapter\<lparr>buffer := A2 [map normalize (le16s (replicate 512 0))]\<rparr>,
                  scenario_world)) \<and>
   (\<exists>out w2.
      filter_audio identity_env
          (scenario_adapter\<lparr>buffer := A2 [map normalize (le16s (replicate 512 0))]\<rparr>)
          (replicate 512 0) scenario_world
        = Some (Inr (out, scenario_adapter\<lparr>buffer := A2 [[]]\<rparr>, w2)) \<and>
      length out = 1024)"
proof -
  have hyps: "channels scenario_adapter = 1" "num_frames scenario_adapter = 512"
    "filtering scenario_adapter" "enhancer scenario_adapter = Some 0"
    "objects scenario_world 0 = Some scenario_obj"
    "nd_size (buffer scenario_adapter) = 0"
    "length (replicate 512 (0::byte)) = 512" "length (replicate 512 (0::byte)) = 512"
    by (simp_all add: scenario_adapter_def scenario_world_def nd_size_def)
  from two_half_chunks [OF hyps, of identity_env] hyps
  show ?thesis by auto
qed

section \<open>Enhancement strength\<close>

lemma clamp_strength_Fin: "clamp_strength (Fin r) = Fin (max 0 (min 1 r))"
  by (simp add: clamp_strength_def py_min_def py_max_def max_def min_def)

lemma clamp_strength_unit: "in_unit_interval (clamp_strength x)"
  by (cases x) (simp_all add: clamp_strength_def py_min_def py_max_def in_unit_interval_def)

lemma process_frame_strength:
  assumes "settings ''enhancement_strength'' = Some (Number x)"
    and "process_frame env a (FilterUpdateSettingsFrame settings) w = Inr (a', w')"
  shows "a' = a\<lparr>enhancement_strength := clamp_strength x\<rparr>"
  using assms
  by (auto simp: process_frame_def Let_def split: option.splits sum.splits)

text \<open>
  C5. The strength stored by \<open>__init__\<close>, and by \<open>process_frame\<close> for a settings
  frame that carries a number under \<open>enhancement_strength\<close>, is the clamped input.
  It lies in [0, 1] for every input, infinities and NaN included; for a finite input
  \<open>r\<close> it is \<open>max 0 (min 1 r)\<close>; -1 gives 0 and 2 gives 1.
\<close>

theorem strength_clamped:
  assumes "settings ''enhancement_strength'' = Some (Number x)"
    and "process_frame env a (FilterUpdateSettingsFrame settings) w = Inr (a', w')"
  shows "enhancement_strength (init lk c nf es) = clamp_strength es \<and>
         enhancement_strength a' = clamp_strength x \<and>
         in_unit_interval (enhancement_strength (init lk c nf es)) \<and>
         in_unit_interval (enhancement_strength a') \<and>
         clamp_strength (Fin r) = Fin (max 0 (min 1 r)) \<and>
         clamp_strength (Fin (- 1)) = Fin 0 \<and>
         clamp_strength (Fin 2) = Fin 1"
proof -
  from assms have "a' = a\<lparr>enhancement_strength := clamp_strength x\<rparr>"
    by (rule process_frame_strength)
  then show ?thesis
    by (simp add: init_def clamp_strength_unit clamp_strength_Fin)
qed

theorem strength_clamped_witness:
  "[''enhancement_strength'' \<mapsto> Number (Fin 2)] ''enhancement_strength'' = Some (Number (Fin 2)) \<and>
   process_frame identity_env test_adapter
       (FilterUpdateSettingsFrame [''enhancement_strength'' \<mapsto> Number (Fin 2)]) test_world
     = Inr (test_adapter\<lparr>enhancement_strength := Fin 1\<rparr>, test_world) \<and>
   enhancement_strength (init ''key'' 1 512 (Fin (- 1))) = Fin 0 \<and>
   enhancement_strength (test_adapter\<lparr>enhancement_strength := Fin 1\<rparr>) = clamp_strength (Fin 2) \<and>
   in_unit_interval (enhancement_strength (init ''key'' 1 512 (Fin (- 1))))"
proof -
  have s: "[''enhancement_strength'' \<mapsto> Number (Fin 2)] ''enhancement_strength''
             = Some (Number (Fin 2))"
    by simp
  have c2: "clamp_strength (Fin 2) = Fin 1"
    by (simp add: clamp_strength_def py_min_def py_max_def)
  have run: "process_frame identity_env test_adapter
       (FilterUpdateSettingsFrame [''enhancement_strength'' \<mapsto> Number (Fin 2)]) test_world
     = Inr (test_adapter\<lparr>enhancement_strength := Fin 1\<rparr>, test_world)"
    by (simp add: process_frame_def c2 test_adapter_def test_world_def test_obj_def
        call_set_strength_def identity_env_def)
  from strength_clamped [OF s run, of "''key''" 1 512 "Fin (- 1)" 0] s run
  show ?thesis by (simp add: c2 init_def in_unit_interval_def)
qed

section \<open>The registry of engines\<close>

lemma wf_world_empty: "wf_world empty_world"
  by (simp add: wf_world_def empty_world_def)

lemma get_processor_hit:
  "instances w (sr, nc, nf) = Some h \<Longrightarrow> get_processor env w lk sr nc nf = Inr (h, w)"
  by (simp add: get_processor_def)

lemma get_processor_registers:
  "get_processor env w lk sr nc nf = Inr (h, w') \<Longrightarrow> instances w' (sr, nc, nf) = Some h"
  by (auto simp: get_processor_def Let_def split: option.splits)

lemma wf_worldD1: "wf_world w \<Longrightarrow> instances w k = Some h \<Longrightarrow> h < next_handle w"
  unfolding wf_world_def by blast

lemma wf_worldD2: "wf_world w \<Longrightarrow> instances w k = Some h \<Longrightarrow> \<exists>obj. objects w h = Some obj"
  unfolding wf_world_def by blast

lemma wf_worldD3: "wf_world w \<Longrightarrow> objects w h = Some obj \<Longrightarrow> h < next_handle w"
  unfolding wf_world_def by (metis option.distinct(1))

lemma wf_worldD4:
  "wf_world w \<Longrightarrow> instances w k = Some h \<Longrightarrow> instances w k' = Some h \<Longrightarrow> k = k'"
  unfolding wf_world_def by blast

lemma wf_worldI:
  assumes "\<And>k h. instances w k = Some h \<Longrightarrow> h < next_handle w \<and> objects w h \<noteq> None"
    and "\<And>h. objects w h \<noteq> None \<Longrightarrow> h < next_handle w"
    and "\<And>k k' h. instances w k = Some h \<Longrightarrow> instances w k' = Some h \<Longrightarrow> k = k'"
  shows "wf_world w"
  unfolding wf_world_def
proof (intro conjI allI impI)
  fix k h assume h: "instances w k = Some h"
  from assms(1) [OF h] show "h < next_handle w" by simp
  from assms(1) [OF h] show "objects w h \<noteq> None" by simp
next
  fix h assume "objects w h \<noteq> None"
  then show "h < next_handle w" by (rule assms(2))
next
  fix k k' h assume "instances w k = Some h \<and> instances w k' = Some h"
  then show "k = k'" using assms(3) by blast
qed

lemma get_processor_wf:
  assumes "wf_world w" and "get_processor env w lk sr nc nf = Inr (h, w')"
  shows "wf_world w'"
proof (cases "instances w (sr, nc, nf)")
  case (Some h0)
  with assms show ?thesis by (simp add: get_processor_def)
next
  case None
  with assms(2) obtain e where
    w': "w' = w\<lparr>instances := (instances w)((sr, nc, nf) \<mapsto> next_handle w),
               objects := (objects w)(next_handle w \<mapsto>
                 \<lparr>ctor_license = lk, ctor_channels = nc, ctor_rate = sr,
                  ctor_frames = nf, estate = e\<rparr>),
               next_handle := Suc (next_handle w)\<rparr>"
    by (auto simp: get_processor_def Let_def split: option.splits)
  note a = wf_worldD1 [OF assms(1)] and a' = wf_worldD2 [OF assms(1)]
    and b = wf_worldD3 [OF assms(1)] and c = wf_worldD4 [OF assms(1)]
  show ?thesis
  proof (rule wf_worldI)
    fix k h' assume "instances w' k = Some h'"
    then show "h' < next_handle w' \<and> objects w' h' \<noteq> None"
      using a [of k h'] a' [of k h'] by (auto simp: w' split: if_splits)
  next
    fix h' assume "objects w' h' \<noteq> None"
    then show "h' < next_handle w'"
      using b [of h'] by (auto simp: w' split: if_splits)
  next
    fix k k' h' assume "instances w' k = Some h'" and "instances w' k' = Some h'"
    then show "k = k'"
      using a [of k h'] a [of k' h'] c [of k h' k'] by (auto simp: w' split: if_splits)
  qed
qed

text \<open>
  C6. After a lookup that returned a handle, a lookup with the same sample rate, channel
  count and chunk size returns the same handle and leaves the store as it is, so it
  constructs nothing; a lookup that differs in the chunk size returns another handle.
\<close>

theorem registry_idempotent:
  assumes wf: "wf_world w" and first: "get_processor env w lk1 sr nc nf = Inr (h1, w1)"
  shows "get_processor env w1 lk2 sr nc nf = Inr (h1, w1) \<and>
         (nf' \<noteq> nf \<and> get_processor env w1 lk3 sr nc nf' = Inr (h2, w2) \<longrightarrow> h2 \<noteq> h1)"
proof -
  from first have reg: "instances w1 (sr, nc, nf) = Some h1"
    by (rule get_processor_registers)
  then have again: "get_processor env w1 lk2 sr nc nf = Inr (h1, w1)"
    by (rule get_processor_hit)
  have wf1: "wf_world w1" using wf first by (rule get_processor_wf)
  have "h2 \<noteq> h1" if ne: "nf' \<noteq> nf" and other: "get_processor env w1 lk3 sr nc nf' = Inr (h2, w2)"
  proof
    assume eq: "h2 = h1"
    have wf2: "wf_world w2" using wf1 other by (rule get_processor_wf)
    from other have r2: "instances w2 (sr, nc, nf') = Some h2"
      by (rule get_processor_registers)
    have "instances w2 (sr, nc, nf) = Some h1"
      using other reg ne
      by (auto simp: get_processor_def Let_def split: option.splits)
    with r2 eq wf2 have "(sr, nc, nf') = (sr, nc, nf)"
      unfolding wf_world_def by blast
    with ne show False by simp
  qed
  with again show ?thesis by blast
qed

text \<open>
  C9. The key has no license key in it. After a lookup that constructed the engine for
  a key, a lookup for the same key with any other license key returns the same handle
  and leaves the store as it is; the engine behind the handle is the one constructed
  with the first license key.
\<close>

theorem registry_ignores_license:
  assumes fresh: "instances w (sr, nc, nf) = None"
    and first: "get_processor env w lk1 sr nc nf = Inr (h, w1)"
  shows "get_processor env w1 lk2 sr nc nf = Inr (h, w1) \<and>
         map_option ctor_license (objects w1 h) = Some lk1"
proof -
  from first have "instances w1 (sr, nc, nf) = Some h"
    by (rule get_processor_registers)
  then have "get_processor env w1 lk2 sr nc nf = Inr (h, w1)"
    by (rule get_processor_hit)
  moreover from fresh first have "map_option ctor_license (objects w1 h) = Some lk1"
    by (auto simp: get_processor_def Let_def split: option.splits)
  ultimately show ?thesis by simp
qed


theorem registry_idempotent_witness:
  "wf_world (empty_world :: unit world) \<and>
   get_processor identity_env empty_world ''key'' 16000 1 512 = Inr (0, scenario_world) \<and>
   get_processor identity_env scenario_world ''key'' 16000 1 512 = Inr (0, scenario_world) \<and>
   (256::int) \<noteq> 512 \<and>
   get_processor identity_env scenario_world ''key'' 16000 1 256
     = Inr (1, scenario_world
                 \<lparr>instances := (instances scenario_world)((16000, 1, 256) \<mapsto> 1),
                  objects := (objects scenario_world)(1 \<mapsto>
                    \<lparr>ctor_license = ''key'', ctor_channels = 1, ctor_rate = 16000,
                     ctor_frames = 256, estate = ()\<rparr>),
                  next_handle := 2\<rparr>) \<and>
   (1::handle) \<noteq> 0"
proof -
  let ?w2 = "scenario_world
                 \<lparr>instances := (instances scenario_world)((16000, 1, 256) \<mapsto> 1),
                  objects := (objects scenario_world)(1 \<mapsto>
                    \<lparr>ctor_license = ''key'', ctor_channels = 1, ctor_rate = 16000,
                     ctor_frames = 256, estate = ()\<rparr>),
                  next_handle := 2\<rparr>"
  have wf: "wf_world (empty_world :: unit world)"
    by (simp add: wf_world_def empty_world_def)
  have first: "get_processor identity_env empty_world ''key'' 16000 1 512
                 = Inr (0, scenario_world)"
    by (simp add: get_processor_def empty_world_def identity_env_def scenario_world_def
        scenario_obj_def)
  have third: "get_processor identity_env scenario_world ''key'' 16000 1 256 = Inr (1, ?w2)"
    by (simp add: get_processor_def identity_env_def scenario_world_def)
  from registry_idempotent [OF wf first, of "''key''" 256 "''key''" 1 ?w2] wf first third
  show ?thesis by simp
qed

theorem registry_ignores_license_witness:
  "instances (empty_world :: unit world) (16000, 1, 512) = None \<and>
   get_processor identity_env empty_world ''key'' 16000 1 512 = Inr (0, scenario_world) \<and>
   get_processor identity_env scenario_world ''another key'' 16000 1 512
     = Inr (0, scenario_world) \<and>
   map_option ctor_license (objects scenario_world 0) = Some ''key''"
proof -
  have fresh: "instances (empty_world :: unit world) (16000, 1, 512) = None"
    by (simp add: empty_world_def)
  have first: "get_processor identity_env empty_world ''key'' 16000 1 512
                 = Inr (0, scenario_world)"
    by (simp add: get_processor_def empty_world_def identity_env_def scenario_world_def
        scenario_obj_def)
  from registry_ignores_license [OF fresh first, of "''another key''"] fresh first
  show ?thesis by simp
qed

section \<open>Conversion of the processed samples\<close>

lemma clipped_range: "v \<noteq> NaN \<Longrightarrow> in_int16_range (clipped v)"
  by (cases v) (simp_all add: clipped_def scale_def np_clip_def in_int16_range_def)

lemma trunc_range:
  "- 32768 \<le> r \<Longrightarrow> r \<le> 32767 \<Longrightarrow> - 32768 \<le> trunc r \<and> trunc r \<le> 32767"
  unfolding trunc_def by (auto simp: le_floor_iff floor_le_iff ceiling_le_iff le_ceiling_iff)

lemma sint_int16:
  "- 32768 \<le> i \<Longrightarrow> i \<le> 32767 \<Longrightarrow> sint (word_of_int i :: int16) = i"
  by (simp add: sint_sbintrunc' signed_take_bit_int_eq_self)

lemma int16_bytes: "word_cat (ucast (drop_bit 8 w) :: byte) (ucast w :: byte) = (w :: int16)"
  by (rule bit_word_eqI) (auto simp: bit_word_cat_iff bit_ucast_iff bit_drop_bit_eq)

lemma le16s_tobytes: "le16s (tobytes ws) = ws"
  by (induction ws) (simp_all add: int16_bytes)

lemma frombuffer_tobytes: "frombuffer_int16 (tobytes ws) = Inr ws"
  by (simp add: frombuffer_int16_def length_tobytes le16s_tobytes)

text \<open>
  C7, as amended. The 16-bit samples of the bytes that \<open>filter\<close> encodes are the
  conversions of the processed samples. Every processed sample other than NaN, finite
  or infinite, reaches the conversion scaled and clamped to [-32768, 32767], and the
  int16 it becomes is that value rounded towards zero: no overflow and no wrap-around.
\<close>

theorem pcm16_exact:
  "frombuffer_int16 (encode_output env c chunks)
     = Inr (map (to_pcm16 env) (flatten_out c (concatenate_axis1 chunks))) \<and>
   (v \<noteq> NaN \<longrightarrow>
      in_int16_range (clipped v) \<and>
      (\<exists>r. clipped v = Fin r \<and> sint (to_pcm16 env v) = trunc r \<and>
           - 32768 \<le> trunc r \<and> trunc r \<le> 32767))"
proof -
  have "in_int16_range (clipped v) \<and>
      (\<exists>r. clipped v = Fin r \<and> sint (to_pcm16 env v) = trunc r \<and>
           - 32768 \<le> trunc r \<and> trunc r \<le> 32767)" if "v \<noteq> NaN"
  proof -
    from that have rng: "in_int16_range (clipped v)" by (rule clipped_range)
    then obtain r where r: "clipped v = Fin r" and lo: "- 32768 \<le> r" and hi: "r \<le> 32767"
      by (cases "clipped v") (simp_all add: in_int16_range_def)
    from lo hi have t: "- 32768 \<le> trunc r \<and> trunc r \<le> 32767" by (rule trunc_range)
    then have "sint (word_of_int (trunc r) :: int16) = trunc r" by (simp add: sint_int16)
    with r have "sint (to_pcm16 env v) = trunc r"
      by (simp add: to_pcm16_def astype_int16_def)
    with rng r t show ?thesis by simp
  qed
  then show ?thesis by (simp add: encode_output_def frombuffer_tobytes)
qed

theorem pcm16_exact_witness:
  "Fin 2 \<noteq> NaN \<and> in_int16_range (clipped (Fin 2)) \<and> clipped (Fin 2) = Fin 32767 \<and>
   sint (to_pcm16 identity_env (Fin 2)) = 32767 \<and>
   PInf \<noteq> NaN \<and> in_int16_range (clipped PInf) \<and> clipped PInf = Fin 32767 \<and>
   sint (to_pcm16 identity_env PInf) = 32767"
proof -
  have c: "clipped (Fin 2) = Fin 32767"
    by (simp add: clipped_def scale_def np_clip_def f32_max_def)
  have c': "clipped PInf = Fin 32767"
    by (simp add: clipped_def scale_def np_clip_def)
  have t: "trunc 32767 = 32767" by (simp add: trunc_def)
  from pcm16_exact [of identity_env 1 "[]" "Fin 2"] pcm16_exact [of identity_env 1 "[]" PInf]
  show ?thesis by (simp add: c c' t)
qed

text \<open>
  C7 as stated fails when the engine writes NaN. Four samples into the started test
  adapter whose engine writes NaN: the chunk that is converted holds NaN at every
  position, NaN passes through scaling and clamping, and what reaches the conversion
  is not a number in [-32768, 32767].
\<close>

theorem pcm16_nan_counterexample:
  "filter_audio nan_env test_adapter [1, 0, 2, 0, 3, 0, 4, 0] test_world
     = Some (Inr (encode_output nan_env 1 [[[NaN, NaN, NaN, NaN]]],
                  test_adapter\<lparr>buffer := A2 [[]]\<rparr>, test_world)) \<and>
   flatten_out 1 (concatenate_axis1 [[[NaN, NaN, NaN, NaN]]]) = [NaN, NaN, NaN, NaN] \<and>
   clipped NaN = NaN \<and>
   \<not> in_int16_range (clipped NaN)"
proof -
  have run: "filter_audio nan_env test_adapter [1, 0, 2, 0, 3, 0, 4, 0] test_world
     = Some (Inr (encode_output nan_env 1 [[[NaN, NaN, NaN, NaN]]],
                  test_adapter\<lparr>buffer := A2 [[]]\<rparr>, test_world))"
    by (simp add: filter_audio_def test_adapter_def test_world_def
        test_obj_def nan_env_def frombuffer_int16_def reshape_channels_def
        append_buffer_def nd_size_def chunk_loop.simps loop_body_def shape1_def
        extract_chunk_def remaining_def zeros_def assign_prefix_def call_process_def
        valid_part_def written_def Let_def word_cat_eq)
  have flat: "flatten_out 1 (concatenate_axis1 [[[NaN, NaN, NaN, NaN]]]) = [NaN, NaN, NaN, NaN]"
    by (simp add: flatten_out_def concatenate_axis1_def)
  have nan: "clipped NaN = NaN"
    by (simp add: clipped_def scale_def np_clip_def)
  from run flat nan show ?thesis by (simp add: in_int16_range_def)
qed

section \<open>The buffer stays well formed\<close>

text \<open>
  The hypotheses on the buffer used above hold in every state an adapter reaches:
  \<open>__init__\<close> and \<open>stop\<close> leave the empty one-dimensional array, \<open>start\<close> does not
  touch the buffer, and \<open>filter\<close> leaves a rectangular array with one row per channel.
\<close>

lemma rectangular_iff: "rectangular rows \<longleftrightarrow> (\<forall>r\<in>set rows. length r = shape1 rows)"
  by (simp add: rectangular_def list_all_iff)

lemma rectangular_reshape:
  "reshape_channels c xs = Inr d \<Longrightarrow> rectangular d"
  by (cases "nat c")
    (auto simp: reshape_channels_def deinterleave_def rectangular_iff shape1_def upt_conv_Cons
      split: if_splits)

lemma rectangular_append:
  assumes "rectangular rows" and "rectangular d" and "length rows = length d"
  shows "rectangular (map2 (@) rows d)"
proof -
  have "shape1 (map2 (@) rows d) = shape1 rows + shape1 d"
    using assms(3) by (rule shape1_map2_append)
  moreover have "length r = shape1 rows + shape1 d" if "r \<in> set (map2 (@) rows d)" for r
  proof -
    from that obtain x y where "r = x @ y" "x \<in> set rows" "y \<in> set d"
      by (auto dest: set_zip_leftD set_zip_rightD)
    with assms(1,2) show ?thesis by (simp add: rectangular_iff)
  qed
  ultimately show ?thesis by (simp add: rectangular_iff)
qed

lemma rectangular_remaining: "rectangular rows \<Longrightarrow> rectangular (remaining nf rows)"
  by (cases rows) (auto simp: rectangular_iff remaining_def shape1_def)

lemma length_remaining: "length (remaining nf rows) = length rows"
  by (simp add: remaining_def)

lemma chunk_loop_keeps_shape':
  assumes "chunk_loop env h c nf rows out w = Some y"
    and "y = Inr (rows', out', w')" and "rectangular rows"
  shows "rectangular rows' \<and> length rows' = length rows"
  using assms(2,3)
proof (induction env h c nf rows out w y rule: chunk_loop.raw_induct)
  case (1 loop env h c nf rows out w y)
  show ?case
  proof (cases "nf \<le> int (shape1 rows)")
    case False
    with "1.hyps" "1.prems" show ?thesis by auto
  next
    case True
    show ?thesis
    proof (cases "loop_body env h c nf rows out w")
      case (Inl e)
      with True "1.hyps" "1.prems" show ?thesis by auto
    next
      case (Inr t)
      obtain r1 o1 w1 where t: "t = (r1, o1, w1)" by (cases t) auto
      from Inr t have r1: "r1 = remaining nf rows" by (auto dest: loop_body_rows)
      from True Inr t "1.hyps" have "loop env h c nf r1 o1 w1 = Some y" by simp
      moreover from "1.prems" r1 have "rectangular r1" by (simp add: rectangular_remaining)
      ultimately have "rectangular rows' \<and> length rows' = length r1"
        using "1.prems"(1) by (intro "1.IH")
      with r1 show ?thesis by (simp add: length_remaining)
    qed
  qed
qed fact

lemma chunk_loop_keeps_shape:
  assumes "chunk_loop env h c nf rows out w = Some (Inr (rows', out', w'))"
    and "rectangular rows"
  shows "rectangular rows' \<and> length rows' = length rows"
  using assms(1) refl assms(2) by (rule chunk_loop_keeps_shape')

lemma wf_buffer_init: "wf_buffer c (buffer (init lk c nf es))"
  by (simp add: init_def wf_buffer_def)

lemma wf_buffer_stop: "wf_buffer (channels (stop a)) (buffer (stop a))"
  by (simp add: stop_def wf_buffer_def)

lemma wf_buffer_start:
  "start env a sr w = Inr (a', w') \<Longrightarrow> buffer a' = buffer a \<and> channels a' = channels a"
  by (auto simp: start_def split: sum.splits prod.splits)

lemma rectangular_buffer_rows: "wf_buffer c b \<Longrightarrow> rectangular (buffer_rows c b)"
  by (cases b; cases "nat c") (auto simp: wf_buffer_def buffer_rows_def rectangular_iff shape1_def)

lemma wf_buffer_filter:
  assumes wf: "wf_buffer (channels a) (buffer a)"
    and run: "adapter_after (filter_audio env a audio w) = Some a'"
  shows "wf_buffer (channels a') (buffer a') \<and> channels a' = channels a \<and>
         num_frames a' = num_frames a"
proof (cases "filtering a \<and> enhancer a \<noteq> None")
  case False
  with run have "a' = a"
    by (auto simp: filter_audio_def adapter_after_def split: option.splits)
  with wf show ?thesis by simp
next
  case True
  then obtain h where h: "enhancer a = Some h" and en: "filtering a" by auto
  from run h en obtain ws d rows0 rows' chunks w' where
    ws: "frombuffer_int16 audio = Inr ws"
    and d: "reshape_channels (channels a) (map normalize ws) = Inr d"
    and app: "append_buffer (buffer a) d = Inr rows0"
    and loop: "chunk_loop env h (channels a) (num_frames a) rows0 [] w
                 = Some (Inr (rows', chunks, w'))"
    and a': "a' = a\<lparr>buffer := A2 rows'\<rparr>"
    by (auto simp: filter_audio_def adapter_after_def
        split: option.splits sum.splits prod.splits if_splits)
  from d have len: "int (length d) = channels a" and pos: "0 < channels a"
    by (auto dest: reshape_channels_rows)
  from wf len app have rows0: "rows0 = map2 (@) (buffer_rows (channels a) (buffer a)) d"
    by (simp add: append_buffer_wf)
  from wf pos have lb: "int (length (buffer_rows (channels a) (buffer a))) = channels a"
    by (simp add: length_buffer_rows)
  with len have eq: "length (buffer_rows (channels a) (buffer a)) = length d" by simp
  have "rectangular rows0"
    unfolding rows0 using wf d eq
    by (intro rectangular_append rectangular_buffer_rows rectangular_reshape)
  with loop have "rectangular rows' \<and> length rows' = length rows0"
    by (rule chunk_loop_keeps_shape)
  moreover from eq len have "int (length rows0) = channels a" by (simp add: rows0)
  ultimately show ?thesis by (simp add: a' wf_buffer_def)
qed

section \<open>What a call can return\<close>

text \<open>The bytes a \<open>filter\<close> call returns are its input or the encoding of its chunks.\<close>

lemma filter_output_cases:
  assumes "filter_audio env a audio w = Some (Inr (out, a', w'))"
  shows "out = audio \<or>
         (\<exists>chunks. chunks \<noteq> [] \<and> out = encode_output env (channels a) chunks)"
  using assms
  by (auto simp: filter_audio_def split: option.splits sum.splits prod.splits if_splits)

section \<open>The store stays well formed\<close>

text \<open>
  Method calls on an engine change its state only, so every operation of the adapter
  keeps the store well formed, as \<open>get_processor\<close> does.
\<close>

lemma wf_world_same_shape:
  assumes "wf_world w" and "instances w' = instances w" and "next_handle w' = next_handle w"
    and "\<And>h. objects w' h \<noteq> None \<longleftrightarrow> objects w h \<noteq> None"
  shows "wf_world w'"
proof (rule wf_worldI)
  fix k h assume "instances w' k = Some h"
  with assms show "h < next_handle w' \<and> objects w' h \<noteq> None"
    using wf_worldD1 [of w k h] wf_worldD2 [of w k h] by auto
next
  fix h assume "objects w' h \<noteq> None"
  with assms(4) obtain obj where "objects w h = Some obj" by auto
  with assms(1,3) show "h < next_handle w'" by (simp add: wf_worldD3)
next
  fix k k' h assume "instances w' k = Some h" and "instances w' k' = Some h"
  with assms(1,2) show "k = k'" by (auto dest: wf_worldD4)
qed

lemma call_set_strength_wf:
  "wf_world w \<Longrightarrow> call_set_strength env s h w = Inr w' \<Longrightarrow> wf_world w'"
  by (erule wf_world_same_shape)
    (auto simp: call_set_strength_def split: option.splits if_splits)

lemma call_process_wf:
  "wf_world w \<Longrightarrow> call_process env h arr w = Inr (f, w') \<Longrightarrow> wf_world w'"
  by (erule wf_world_same_shape)
    (auto simp: call_process_def split: option.splits prod.splits if_splits)

lemma start_wf:
  assumes "wf_world w" and "start env a sr w = Inr (a', w')"
  shows "wf_world w'"
proof -
  from assms(2) obtain h w1 where
    g: "get_processor env w (license_key a) sr (channels a) (num_frames a) = Inr (h, w1)"
    and s: "call_set_strength env (enhancement_strength a) h w1 = Inr w'"
    by (auto simp: start_def split: sum.splits prod.splits)
  from assms(1) g have "wf_world w1" by (rule get_processor_wf)
  then show ?thesis using s by (rule call_set_strength_wf)
qed

lemma process_frame_wf:
  assumes "wf_world w" and "process_frame env a fr w = Inr (a', w')"
  shows "wf_world w'"
  using assms
  by (auto simp: process_frame_def Let_def call_set_strength_wf
      split: frame.splits option.splits pyval.splits sum.splits)

lemma loop_body_wf:
  "wf_world w \<Longrightarrow> loop_body env h c nf rows out w = Inr (rows', out', w') \<Longrightarrow> wf_world w'"
  by (auto simp: loop_body_def Let_def split: if_splits sum.splits prod.splits
      dest: call_process_wf)

lemma chunk_loop_wf':
  assumes "chunk_loop env h c nf rows out w = Some y"
    and "y = Inr (rows', out', w')" and "wf_world w"
  shows "wf_world w'"
  using assms(2,3)
proof (induction env h c nf rows out w y rule: chunk_loop.raw_induct)
  case (1 loop env h c nf rows out w y)
  show ?case
  proof (cases "nf \<le> int (shape1 rows)")
    case False
    with "1.hyps" "1.prems" show ?thesis by auto
  next
    case True
    show ?thesis
    proof (cases "loop_body env h c nf rows out w")
      case (Inl e)
      with True "1.hyps" "1.prems" show ?thesis by auto
    next
      case (Inr t)
      obtain r1 o1 w1 where t: "t = (r1, o1, w1)" by (cases t) auto
      from "1.prems"(2) Inr t have "wf_world w1" by (auto dest: loop_body_wf)
      moreover from True Inr t "1.hyps" have "loop env h c nf r1 o1 w1 = Some y" by simp
      ultimately show ?thesis using "1.prems"(1) by (intro "1.IH")
    qed
  qed
qed fact

lemma filter_audio_wf:
  assumes "wf_world w" and "world_after (filter_audio env a audio w) = Some w'"
  shows "wf_world w'"
proof (cases "filtering a \<and> enhancer a \<noteq> None")
  case False
  with assms(2) have "w' = w"
    by (auto simp: filter_audio_def world_after_def split: option.splits)
  with assms(1) show ?thesis by simp
next
  case True
  then obtain h where h: "enhancer a = Some h" and en: "filtering a" by auto
  from assms(2) h en obtain rows0 rows' chunks where
    "chunk_loop env h (channels a) (num_frames a) rows0 [] w = Some (Inr (rows', chunks, w'))"
    by (auto simp: filter_audio_def world_after_def
        split: option.splits sum.splits prod.splits if_splits)
  then show ?thesis using refl assms(1) by (rule chunk_loop_wf')
qed

end
